theory Spec2Isabelle
  imports Complex_Main "HOL-Library.Log_Nat"
begin

section \<open>The melody decoder of mgen.py\<close>

text \<open>
  A genome is a Python list of integers (bits), so it is an \<open>int list\<close>; Python compares two
  genomes with \<open>==\<close>, which is element-wise equality of the lists, as HOL's \<open>=\<close> is.
  Exceptions are values of \<open>py_error\<close>; a function that may raise returns \<open>py_error + 'a\<close>.
\<close>

type_synonym genome = "int list"

datatype py_error =
  ZeroDivisionError | OverflowError | ValueError | TypeError | IndexError | InvalidParameter


subsection \<open>Python floats\<close>

text \<open>
  A Python float is an IEEE 754 double. A finite double is the rational number it denotes
  (the sign of a zero is not kept: nothing below depends on it), and every operation rounds its
  exact result to the nearest double, to the even significand on a tie: 53 bits of
  significand, the unit in the last place never below \<open>2^-1074\<close>, and infinity from \<open>2^1024\<close> on.
  The helper functions carry each intermediate value as an argument, so that it is computed
  once.
\<close>

datatype pyfloat = Finite rat | PosInf | NegInf | NaN

definition square :: "rat \<Rightarrow> rat" where
  "square x = x * x"

function pow2 :: "int \<Rightarrow> rat" where
  "pow2 k =
     (if k < 0 then 1 / pow2 (- k)
      else if k = 0 then 1
      else if even k then square (pow2 (k div 2))
      else 2 * square (pow2 (k div 2)))"
  by pat_completeness auto
termination
  by (relation "measure (\<lambda>k. if k < 0 then nat (1 - 2 * k) else nat (2 * k))") auto

declare pow2.simps [simp del]

text \<open>
  \<open>floor_log2 q\<close> is the integer \<open>k\<close> with \<open>2^k \<le> q < 2^(k+1)\<close> for a positive \<open>q\<close> (lemmas
  \<open>floor_log2_lower\<close> and \<open>floor_log2_upper\<close>): the difference of the bit lengths of numerator
  and denominator, or one less.
\<close>

definition floor_log2_from :: "rat \<Rightarrow> int \<Rightarrow> int" where
  "floor_log2_from q k = (if pow2 k \<le> q then k else k - 1)"

definition floor_log2 :: "rat \<Rightarrow> int" where
  "floor_log2 q = (case quotient_of q of (a, b) \<Rightarrow> floor_log2_from q (bitlen a - bitlen b))"

definition round_half_even_from :: "rat \<Rightarrow> int \<Rightarrow> int" where
  "round_half_even_from x m =
     (if x - of_int m < 1 / 2 then m
      else if 1 / 2 < x - of_int m then m + 1
      else if even m then m else m + 1)"

definition round_half_even :: "rat \<Rightarrow> int" where
  "round_half_even x = round_half_even_from x \<lfloor>x\<rfloor>"

definition round_to_ulp :: "rat \<Rightarrow> rat \<Rightarrow> rat" where
  "round_to_ulp a ulp = of_int (round_half_even (a / ulp)) * ulp"

definition overflow_check :: "bool \<Rightarrow> rat \<Rightarrow> pyfloat" where
  "overflow_check negative v =
     (if 1024 \<le> floor_log2 v then (if negative then NegInf else PosInf)
      else Finite (if negative then - v else v))"

definition round_magnitude :: "bool \<Rightarrow> rat \<Rightarrow> pyfloat" where
  "round_magnitude negative a =
     overflow_check negative (round_to_ulp a (pow2 (max (floor_log2 a - 52) (- 1074))))"

definition round_double :: "rat \<Rightarrow> pyfloat" where
  "round_double q = (if q = 0 then Finite 0 else round_magnitude (q < 0) \<bar>q\<bar>)"

text \<open>\<open>float(n)\<close> of an integer raises \<open>OverflowError\<close> when \<open>n\<close> rounds beyond the doubles.\<close>

definition py_float :: "int \<Rightarrow> py_error + pyfloat" where
  "py_float n =
     (case round_double (of_int n) of Finite v \<Rightarrow> Inr (Finite v) | _ \<Rightarrow> Inl OverflowError)"

text \<open>\<open>4 / x\<close> for a float \<open>x\<close>: Python raises \<open>ZeroDivisionError\<close> for a zero divisor.\<close>

fun four_over :: "pyfloat \<Rightarrow> py_error + pyfloat" where
  "four_over (Finite v) = (if v = 0 then Inl ZeroDivisionError else Inr (round_double (4 / v)))"
| "four_over PosInf = Inr (Finite 0)"
| "four_over NegInf = Inr (Finite 0)"
| "four_over NaN = Inr NaN"

text \<open>\<open>x + y\<close> for floats.\<close>

fun float_add :: "pyfloat \<Rightarrow> pyfloat \<Rightarrow> pyfloat" where
  "float_add (Finite a) (Finite b) = round_double (a + b)"
| "float_add NaN y = NaN"
| "float_add x NaN = NaN"
| "float_add PosInf NegInf = NaN"
| "float_add NegInf PosInf = NaN"
| "float_add PosInf y = PosInf"
| "float_add NegInf y = NegInf"
| "float_add x PosInf = PosInf"
| "float_add x NegInf = NegInf"

text \<open>\<open>note_length = 4 / float(num_notes)\<close> (line 78).\<close>

definition note_length_of :: "int \<Rightarrow> py_error + pyfloat" where
  "note_length_of num_notes =
     (case py_float num_notes of Inl e \<Rightarrow> Inl e | Inr x \<Rightarrow> four_over x)"

subsection \<open>The decoder\<close>

definition BITS_PER_NOTE :: nat where
  "BITS_PER_NOTE = 4"

text \<open>\<open>int(sum([bit * pow(2, index) for index, bit in enumerate(bits)]))\<close>\<close>

definition int_from_bits :: "int list \<Rightarrow> int" where
  "int_from_bits bits = sum_list (map (\<lambda>(index, bit). bit * 2 ^ index) (enumerate 0 bits))"

text \<open>
  \<open>[genome[i * 4 : i * 4 + 4] for i in range(num_bars * num_notes)]\<close>: a Python slice past
  the end of the list is cut short (or empty), as \<open>take\<close> after \<open>drop\<close> is; \<open>range\<close> of a
  negative number is empty, as \<open>nat\<close> of it is 0.
\<close>

definition chunks :: "genome \<Rightarrow> int \<Rightarrow> int \<Rightarrow> int list list" where
  "chunks genome num_bars num_notes =
     map (\<lambda>i. take BITS_PER_NOTE (drop (i * BITS_PER_NOTE) genome))
       [0 ..< nat (num_bars * num_notes)]"

text \<open>
  The dictionary \<open>melody\<close> with its three keys. The source first fills \<open>"notes"\<close> with one
  integer per entry and then replaces it by the list of steps, so the record is polymorphic in
  the type of a note. (\<open>notes\<close> is a keyword of Isabelle, hence the prefix of the field names.)
\<close>

record 'n melody =
  m_notes :: "'n list"
  m_velocity :: "int list"
  m_beat :: "pyfloat list"

definition empty_melody :: "int melody" where
  "empty_melody = \<lparr>m_notes = [], m_velocity = [], m_beat = []\<rparr>"

text \<open>
  The body of \<open>for note_bits in chunks\<close> (lines 87 to 105). The three lists are only ever
  appended to together, so \<open>melody["beat"][-1]\<close> exists whenever \<open>melody["notes"]\<close> is not
  empty (lemma \<open>decode_aligned\<close> below).
\<close>

definition decode_chunk :: "bool \<Rightarrow> pyfloat \<Rightarrow> int melody \<Rightarrow> int list \<Rightarrow> int melody" where
  "decode_chunk pauses note_length m note_bits =
     (let integer0 = int_from_bits note_bits;
          integer = (if \<not> pauses then integer0 mod 2 ^ (BITS_PER_NOTE - 1) else integer0)
      in if integer \<ge> 2 ^ (BITS_PER_NOTE - 1) then
           m\<lparr>m_notes := m_notes m @ [0], m_velocity := m_velocity m @ [0],
              m_beat := m_beat m @ [note_length]\<rparr>
         else if length (m_notes m) > 0 \<and> last (m_notes m) = integer then
           m\<lparr>m_beat := (m_beat m)[length (m_beat m) - 1 := float_add (last (m_beat m)) note_length]\<rparr>
         else
           m\<lparr>m_notes := m_notes m @ [integer], m_velocity := m_velocity m @ [127],
              m_beat := m_beat m @ [note_length]\<rparr>)"

text \<open>
  The inner loop of the step expansion (lines 110 to 115). \<open>scale_pitches\<close> stands for the
  MIDI numbers of the pitch list that music21 resolves for the key and the scale name
  (lines 80 to 83); \<open>%\<close> by its length raises \<open>ZeroDivisionError\<close> when it is empty.
\<close>

definition step_note :: "int list \<Rightarrow> int \<Rightarrow> int \<Rightarrow> py_error + int" where
  "step_note scale_pitches step v =
     (if v = 0 then Inr 0
      else if length scale_pitches = 0 then Inl ZeroDivisionError
      else Inr (scale_pitches ! nat ((v + step * 2) mod int (length scale_pitches))))"

text \<open>Running a list of computations in order; the first exception ends the run.\<close>

fun collect :: "('e + 'a) list \<Rightarrow> 'e + 'a list" where
  "collect [] = Inr []"
| "collect (Inl e # rs) = Inl e"
| "collect (Inr x # rs) = (case collect rs of Inl e \<Rightarrow> Inl e | Inr xs \<Rightarrow> Inr (x # xs))"

definition expand_steps :: "int list \<Rightarrow> int \<Rightarrow> int list \<Rightarrow> py_error + int list list" where
  "expand_steps scale_pitches num_steps ns =
     collect (map (\<lambda>step. collect (map (step_note scale_pitches (int step)) ns))
       [0 ..< nat num_steps])"

text \<open>
  \<open>genome_to_melody\<close>. The parameters \<open>key\<close> and \<open>scale_name\<close> only select \<open>scale_pitches\<close>
  and \<open>root\<close> is unused, so the model takes \<open>scale_pitches\<close> in their place.
\<close>

definition genome_to_melody ::
  "genome \<Rightarrow> int \<Rightarrow> int \<Rightarrow> int \<Rightarrow> bool \<Rightarrow> int list \<Rightarrow> py_error + int list melody" where
  "genome_to_melody genome num_bars num_notes num_steps pauses scale_pitches =
     (let cs = chunks genome num_bars num_notes in
      case note_length_of num_notes of
        Inl e \<Rightarrow> Inl e
      | Inr note_length \<Rightarrow>
          (let m = foldl (decode_chunk pauses note_length) empty_melody cs
           in case expand_steps scale_pitches num_steps (m_notes m) of
                Inl e \<Rightarrow> Inl e
              | Inr steps \<Rightarrow>
                  Inr \<lparr>m_notes = steps, m_velocity = m_velocity m, m_beat = m_beat m\<rparr>))"

text \<open>
  The total duration of a step as \<open>genome_to_stream\<close> accumulates it (lines 143 to 155):
  \<open>current_offset\<close> starts at \<open>0.0\<close> and each entry adds its duration.
\<close>

definition total_duration :: "pyfloat list \<Rightarrow> pyfloat" where
  "total_duration beats = foldl float_add (Finite 0) beats"

text \<open>The pitches music21 gives for the C major scale: C4 to C5.\<close>

definition c_major :: "int list" where
  "c_major = [60, 62, 64, 65, 67, 69, 71, 72]"

section \<open>The random source\<close>

text \<open>
  The source draws from Python's process-wide \<open>random\<close> module. The model threads the random
  source through every call as the list of the raw draws still to come (a draw from the empty
  list is 0), so every theorem below holds for every outcome of every draw.
  \<open>random.randrange(n)\<close> raises \<open>ValueError\<close> for \<open>n \<le> 0\<close> and otherwise returns a number below
  \<open>n\<close>; \<open>random.randint(a, b)\<close> returns a number from \<open>a\<close> to \<open>b\<close>; \<open>random.sample(xs, 2)\<close> raises
  \<open>ValueError\<close> when \<open>xs\<close> has fewer than two elements and otherwise returns the elements at two
  different positions.
\<close>

type_synonym rng = "nat list"

fun draw :: "rng \<Rightarrow> nat \<times> rng" where
  "draw [] = (0, [])"
| "draw (x # xs) = (x, xs)"

definition randrange :: "nat \<Rightarrow> rng \<Rightarrow> (py_error + nat) \<times> rng" where
  "randrange n r =
     (if n = 0 then (Inl ValueError, r)
      else case draw r of (x, r1) \<Rightarrow> (Inr (x mod n), r1))"

definition randint :: "int \<Rightarrow> int \<Rightarrow> rng \<Rightarrow> int \<times> rng" where
  "randint a b r = (case draw r of (x, r1) \<Rightarrow> (a + int x mod (b - a + 1), r1))"

text \<open>The test \<open>random.random() < 0.5\<close>.\<close>

definition random_below_half :: "rng \<Rightarrow> bool \<times> rng" where
  "random_below_half r = (case draw r of (x, r1) \<Rightarrow> (even x, r1))"

definition random_sample2 :: "'a list \<Rightarrow> rng \<Rightarrow> (py_error + 'a \<times> 'a) \<times> rng" where
  "random_sample2 xs r =
     (if length xs < 2 then (Inl ValueError, r)
      else case draw r of (x, r1) \<Rightarrow> (case draw r1 of (y, r2) \<Rightarrow>
        (let i = x mod length xs; j0 = y mod (length xs - 1);
             j = (if j0 < i then j0 else j0 + 1)
         in (Inr (xs ! i, xs ! j), r2))))"

section \<open>The collaborators that are not in mgen.py\<close>

text \<open>
  \<open>generate_genome\<close>, \<open>selection_pair\<close>, \<open>single_point_crossover\<close> and \<open>mutation\<close> are imported
  from \<open>algorithms.genetic\<close>, and the pitch lists and the MIDI files come from music21. They are
  parameters of the model: each takes the random source and returns an exception or a value,
  with the random source it leaves. The operators have the signatures the source uses them at:
  \<open>selection_pair\<close> and \<open>single_point_crossover\<close> return two genomes, \<open>mutation\<close> one.
  \<open>single_point_crossover1\<close> is the same function read at the signature the except-branch of
  the source provides for (\<open>if single_point_crossover returns one genome in their version\<close>):
  what the retry binds to \<open>child\<close>.
  \<open>get_pitches\<close> is \<open>_build_scale(key, scale_name).getPitches()\<close> with its fall-backs, as MIDI
  numbers; \<open>write_midi\<close> is the construction and the writing of the music21 streams
  (lines 136 to 159 and 182 to 195), which returns nothing or raises.
  Genomes are values here, as the spec has them (immutable, freely shared).
\<close>

record env =
  generate_genome :: "int \<Rightarrow> rng \<Rightarrow> (py_error + genome) \<times> rng"
  selection_pair :: "genome list \<Rightarrow> (genome \<Rightarrow> int) \<Rightarrow> rng \<Rightarrow> (py_error + genome \<times> genome) \<times> rng"
  single_point_crossover :: "genome \<Rightarrow> genome \<Rightarrow> rng \<Rightarrow> (py_error + genome \<times> genome) \<times> rng"
  single_point_crossover1 :: "genome \<Rightarrow> genome \<Rightarrow> rng \<Rightarrow> (py_error + genome) \<times> rng"
  mutation :: "genome \<Rightarrow> int \<Rightarrow> rat \<Rightarrow> rng \<Rightarrow> (py_error + genome) \<times> rng"
  get_pitches :: "string \<Rightarrow> string \<Rightarrow> py_error + int list"
  write_midi :: "string \<Rightarrow> int list melody \<Rightarrow> int \<Rightarrow> py_error option"

text \<open>
  \<open>save_genome_to_midi\<close>, through \<open>genome_to_stream\<close>: the melody is decoded first
  (\<open>4 / float(num_notes)\<close> is evaluated before the scale is built), then rendered. The result
  is the exception raised, if any.
\<close>

definition save_genome_to_midi ::
  "env \<Rightarrow> string \<Rightarrow> genome \<Rightarrow> int \<Rightarrow> int \<Rightarrow> int \<Rightarrow> bool \<Rightarrow> string \<Rightarrow> string \<Rightarrow> int
     \<Rightarrow> py_error option" where
  "save_genome_to_midi E filename genome num_bars num_notes num_steps pauses key scale_name bpm =
     (case note_length_of num_notes of
        Inl e \<Rightarrow> Some e
      | Inr note_length \<Rightarrow>
          (case get_pitches E key scale_name of
             Inl e \<Rightarrow> Some e
           | Inr scale_pitches \<Rightarrow>
               (case genome_to_melody genome num_bars num_notes num_steps pauses scale_pitches of
                  Inl e \<Rightarrow> Some e
                | Inr mel \<Rightarrow> write_midi E filename mel bpm)))"

section \<open>The session\<close>

text \<open>The dictionary that \<open>init_session_state\<close> builds, one field for each key.\<close>

record session =
  num_bars :: int
  num_notes :: int
  pauses :: bool
  key :: string
  scale :: string
  bpm :: int
  population_size :: int
  num_mutations :: int
  mutation_prob :: rat
  population :: "genome list"
  ratings :: "(genome \<times> int) list"
  last_genome :: "genome option"
  last_candidate_id :: "string option"
  generation :: int

text \<open>\<open>[generate_genome(genome_length) for _ in range(population_size)]\<close>\<close>

fun generate_population :: "env \<Rightarrow> int \<Rightarrow> nat \<Rightarrow> rng \<Rightarrow> (py_error + genome list) \<times> rng" where
  "generate_population E genome_length 0 r = (Inr [], r)"
| "generate_population E genome_length (Suc n) r =
     (case generate_genome E genome_length r of
        (Inl e, r1) \<Rightarrow> (Inl e, r1)
      | (Inr g, r1) \<Rightarrow>
          (case generate_population E genome_length n r1 of
             (Inl e, r2) \<Rightarrow> (Inl e, r2)
           | (Inr gs, r2) \<Rightarrow> (Inr (g # gs), r2)))"

definition init_session_state ::
  "env \<Rightarrow> int \<Rightarrow> int \<Rightarrow> bool \<Rightarrow> string \<Rightarrow> string \<Rightarrow> int \<Rightarrow> int \<Rightarrow> int \<Rightarrow> rat \<Rightarrow> rng
     \<Rightarrow> (py_error + session) \<times> rng" where
  "init_session_state E num_bars' num_notes' pauses' key' scale' bpm' population_size'
       num_mutations' mutation_prob' r =
     (let genome_length = num_bars' * num_notes' * int BITS_PER_NOTE in
      case generate_population E genome_length (nat population_size') r of
        (Inl e, r1) \<Rightarrow> (Inl e, r1)
      | (Inr pop, r1) \<Rightarrow>
          (Inr \<lparr>num_bars = num_bars', num_notes = num_notes', pauses = pauses', key = key',
                scale = scale', bpm = bpm', population_size = population_size',
                num_mutations = num_mutations', mutation_prob = mutation_prob',
                population = pop, ratings = [], last_genome = None,
                last_candidate_id = None, generation = 0\<rparr>, r1))"

text \<open>
  \<open>_fitness_lookup_from_ratings\<close>: the closure \<open>fitness_func\<close> scans \<open>state["ratings"]\<close> from
  the front and returns at the first record whose genome equals the queried one.
\<close>

fun fitness_func :: "(genome \<times> int) list \<Rightarrow> genome \<Rightarrow> int" where
  "fitness_func [] genome = 0"
| "fitness_func ((g, r) # rest) genome = (if g = genome then r else fitness_func rest genome)"

definition fitness_lookup_from_ratings :: "session \<Rightarrow> genome \<Rightarrow> int" where
  "fitness_lookup_from_ratings state = fitness_func (ratings state)"

text \<open>
  \<open>submit_rating\<close>. The result is the exception raised (if any), the state the call leaves
  and the random source: what the call has written before an exception stays written.
\<close>

definition submit_rating :: "session \<Rightarrow> string \<Rightarrow> int \<Rightarrow> rng \<Rightarrow> py_error option \<times> session \<times> rng" where
  "submit_rating state candidate_id rating0 r =
     (let rating = max 0 (min 5 rating0) in
      case last_genome state of
        None \<Rightarrow> (None, state, r)
      | Some lg \<Rightarrow>
          (let s1 = state\<lparr>ratings := ratings state @ [(lg, rating)]\<rparr> in
           if rating \<ge> 4 then
             (case randrange (length (population s1)) r of
                (Inl e, r1) \<Rightarrow> (Some e, s1, r1)
              | (Inr idx, r1) \<Rightarrow> (None, s1\<lparr>population := (population s1)[idx := lg]\<rparr>, r1))
           else (None, s1, r)))"

text \<open>Python's \<open>str\<close> of an integer, for the f-string of the candidate id.\<close>

function digits10 :: "int \<Rightarrow> string" where
  "digits10 n =
     (if n < 10 then [''0123456789'' ! nat n]
      else digits10 (n div 10) @ [''0123456789'' ! nat (n mod 10)])"
  by pat_completeness auto
termination
  by (relation "measure nat") auto

declare digits10.simps [simp del]

definition str_int :: "int \<Rightarrow> string" where
  "str_int i = (if i < 0 then ''-'' @ digits10 (- i) else digits10 i)"

text \<open>
  The first \<open>try\<close> of \<open>generate_next_candidate\<close>: a \<open>TypeError\<close> of \<open>selection_pair\<close> is
  answered by \<open>random.sample(state["population"], 2)\<close>; any other exception goes on.
\<close>

definition pick_parents ::
  "env \<Rightarrow> genome list \<Rightarrow> (genome \<Rightarrow> int) \<Rightarrow> rng \<Rightarrow> (py_error + genome \<times> genome) \<times> rng" where
  "pick_parents E pop fit r =
     (case selection_pair E pop fit r of
        (Inl TypeError, r1) \<Rightarrow> random_sample2 pop r1
      | (Inl e, r1) \<Rightarrow> (Inl e, r1)
      | (Inr parents, r1) \<Rightarrow> (Inr parents, r1))"

text \<open>
  The second \<open>try\<close>: one of the two children is taken by \<open>random.random() < 0.5\<close>; a
  \<open>TypeError\<close> is answered by calling the crossover again and taking what it returns.
\<close>

definition make_child :: "env \<Rightarrow> genome \<times> genome \<Rightarrow> rng \<Rightarrow> (py_error + genome) \<times> rng" where
  "make_child E parents r =
     (case single_point_crossover E (fst parents) (snd parents) r of
        (Inl TypeError, r1) \<Rightarrow> single_point_crossover1 E (fst parents) (snd parents) r1
      | (Inl e, r1) \<Rightarrow> (Inl e, r1)
      | (Inr (child_a, child_b), r1) \<Rightarrow>
          (case random_below_half r1 of (b, r2) \<Rightarrow> (Inr (if b then child_a else child_b), r2)))"

text \<open>
  Lines 364 to 380 of \<open>generate_next_candidate\<close>: the fitness lookup, the parents, the child
  and its mutation. None of them writes to the state.
\<close>

definition breed :: "env \<Rightarrow> session \<Rightarrow> rng \<Rightarrow> (py_error + genome) \<times> rng" where
  "breed E state r =
     (let fit = fitness_lookup_from_ratings state
      in case pick_parents E (population state) fit r of
        (Inl e, r1) \<Rightarrow> (Inl e, r1)
      | (Inr parents, r1) \<Rightarrow>
          (case make_child E parents r1 of
             (Inl e, r2) \<Rightarrow> (Inl e, r2)
           | (Inr child, r2) \<Rightarrow>
               mutation E child (num_mutations state) (mutation_prob state) r2))"

text \<open>
  \<open>generate_next_candidate\<close>. The result is the candidate id or the exception raised, the
  state the call leaves and the random source. An exception leaves the state as it was
  written so far: the generation counter is already incremented when an operator raises, and
  the population, \<open>last_genome\<close> and \<open>last_candidate_id\<close> are already written when
  \<open>save_genome_to_midi\<close> raises.
\<close>

definition generate_next_candidate ::
  "env \<Rightarrow> session \<Rightarrow> string \<Rightarrow> int \<Rightarrow> rng \<Rightarrow> (py_error + string) \<times> session \<times> rng" where
  "generate_next_candidate E state out_path steps r =
     (let s1 = state\<lparr>generation := generation state + 1\<rparr>
      in case breed E s1 r of
        (Inl e, r3) \<Rightarrow> (Inl e, s1, r3)
      | (Inr child, r3) \<Rightarrow>
      (case randrange (length (population s1)) r3 of
        (Inl e, r4) \<Rightarrow> (Inl e, s1, r4)
      | (Inr replace_idx, r4) \<Rightarrow>
      (case randint 100000 999999 r4 of (n, r5) \<Rightarrow>
        (let s2 = s1\<lparr>population := (population s1)[replace_idx := child]\<rparr>;
             s3 = s2\<lparr>last_genome := Some child\<rparr>;
             candidate_id = ''g'' @ str_int (generation s3) @ ''_'' @ str_int n;
             s4 = s3\<lparr>last_candidate_id := Some candidate_id\<rparr>
         in case save_genome_to_midi E out_path child (num_bars s4) (num_notes s4) steps
                   (pauses s4) (key s4) (scale s4) (bpm s4) of
              Some e \<Rightarrow> (Inl e, s4, r5)
            | None \<Rightarrow> (Inr candidate_id, s4, r5)))))"

text \<open>
  A run of a session: any sequence of the two calls. The caller sees the result of each call
  (the backend turns an exception into an error response) and the session lives on.
\<close>

datatype call = ProduceCandidate string int | RecordRating string int

fun run :: "env \<Rightarrow> call list \<Rightarrow> session \<Rightarrow> rng \<Rightarrow> session \<times> rng" where
  "run E [] s r = (s, r)"
| "run E (ProduceCandidate out_path steps # cs) s r =
     (case generate_next_candidate E s out_path steps r of (res, s1, r1) \<Rightarrow> run E cs s1 r1)"
| "run E (RecordRating candidate_id rating # cs) s r =
     (case submit_rating s candidate_id rating r of (res, s1, r1) \<Rightarrow> run E cs s1 r1)"

section \<open>Operators after the spec, for concrete runs\<close>

text \<open>
  Modelled from the spec: the module \<open>algorithms.genetic\<close> is not among the sources. Section
  4.1 of the spec gives \<open>generate\<close> (each bit drawn independently), section 4.3 gives
  \<open>selectionPair\<close> (roulette selection in which a genome of fitness 0 can still be selected;
  the weight is the fitness plus one here), \<open>singlePointCrossover\<close> (\<open>InvalidParameter\<close> on
  different lengths, one cut point from 1 to length - 1, prefixes and suffixes swapped) and
  \<open>mutation\<close> (that many trials, each picking one position and flipping its bit with the given
  probability). They are used to run the session on concrete inputs, and in the part of
  claim C8 that is about the operators returning.
\<close>

fun spec_generate_bits :: "nat \<Rightarrow> rng \<Rightarrow> genome \<times> rng" where
  "spec_generate_bits 0 r = ([], r)"
| "spec_generate_bits (Suc n) r =
     (case draw r of (x, r1) \<Rightarrow>
        (case spec_generate_bits n r1 of (bits, r2) \<Rightarrow> (int (x mod 2) # bits, r2)))"

definition spec_generate_genome :: "int \<Rightarrow> rng \<Rightarrow> (py_error + genome) \<times> rng" where
  "spec_generate_genome len r = (case spec_generate_bits (nat len) r of (g, r1) \<Rightarrow> (Inr g, r1))"

fun spec_roulette :: "(genome \<Rightarrow> int) \<Rightarrow> genome \<Rightarrow> genome list \<Rightarrow> int \<Rightarrow> genome" where
  "spec_roulette fit g [] t = g"
| "spec_roulette fit g (h # gs) t =
     (if t < fit g + 1 then g else spec_roulette fit h gs (t - (fit g + 1)))"

definition spec_selection_pair ::
  "genome list \<Rightarrow> (genome \<Rightarrow> int) \<Rightarrow> rng \<Rightarrow> (py_error + genome \<times> genome) \<times> rng" where
  "spec_selection_pair pop fit r =
     (case pop of
        [] \<Rightarrow> (Inl InvalidParameter, r)
      | g # gs \<Rightarrow>
          (case draw r of (x, r1) \<Rightarrow> (case draw r1 of (y, r2) \<Rightarrow>
             (let total = sum_list (map (\<lambda>g. fit g + 1) pop)
              in (Inr (spec_roulette fit g gs (int x mod total),
                       spec_roulette fit g gs (int y mod total)), r2)))))"

definition spec_single_point_crossover ::
  "genome \<Rightarrow> genome \<Rightarrow> rng \<Rightarrow> (py_error + genome \<times> genome) \<times> rng" where
  "spec_single_point_crossover a b r =
     (if length a \<noteq> length b \<or> length a < 2 then (Inl InvalidParameter, r)
      else case draw r of (x, r1) \<Rightarrow>
        (let p = 1 + x mod (length a - 1)
         in (Inr (take p a @ drop p b, take p b @ drop p a), r1)))"

fun spec_mutation_trials :: "nat \<Rightarrow> rat \<Rightarrow> genome \<Rightarrow> rng \<Rightarrow> genome \<times> rng" where
  "spec_mutation_trials 0 probability g r = (g, r)"
| "spec_mutation_trials (Suc n) probability g r =
     (case draw r of (x, r1) \<Rightarrow> (case draw r1 of (y, r2) \<Rightarrow>
        (let i = x mod length g;
             g1 = (if of_nat (y mod 100) / 100 < probability then g[i := 1 - g ! i] else g)
         in spec_mutation_trials n probability g1 r2)))"

definition spec_mutation :: "genome \<Rightarrow> int \<Rightarrow> rat \<Rightarrow> rng \<Rightarrow> (py_error + genome) \<times> rng" where
  "spec_mutation g num probability r =
     (if g = [] \<and> 0 < num then (Inl InvalidParameter, r)
      else case spec_mutation_trials (nat num) probability g r of (g1, r1) \<Rightarrow> (Inr g1, r1))"

text \<open>A renderer that writes every melody, over the C major pitches.\<close>

definition spec_env :: env where
  "spec_env =
     \<lparr>generate_genome = spec_generate_genome,
      selection_pair = spec_selection_pair,
      single_point_crossover = spec_single_point_crossover,
      single_point_crossover1 = (\<lambda>a b r. (Inl TypeError, r)),
      mutation = spec_mutation,
      get_pitches = (\<lambda>k s. Inr c_major),
      write_midi = (\<lambda>f m t. None)\<rparr>"

text \<open>
  Two sessions for concrete runs: the one \<open>init_session_state\<close> creates for 1 bar of 2 notes
  and 3 genomes from the draws of lemma \<open>fresh_session_created\<close>, and the one that the first
  \<open>generate_next_candidate\<close> then leaves (lemma \<open>session_after_first_candidate_reached\<close>).
\<close>

definition fresh_session :: session where
  "fresh_session =
     \<lparr>num_bars = 1, num_notes = 2, pauses = True, key = ''C'', scale = ''major'', bpm = 120,
      population_size = 3, num_mutations = 2, mutation_prob = 1 / 2,
      population = [[1, 0, 1, 1, 0, 0, 1, 0], [1, 1, 1, 0, 1, 0, 1, 0], [1, 0, 1, 1, 0, 1, 0, 1]],
      ratings = [], last_genome = None, last_candidate_id = None, generation = 0\<rparr>"

definition session_after_first_candidate :: session where
  "session_after_first_candidate =
     \<lparr>num_bars = 1, num_notes = 2, pauses = True, key = ''C'', scale = ''major'', bpm = 120,
      population_size = 3, num_mutations = 2, mutation_prob = 1 / 2,
      population = [[1, 0, 1, 1, 0, 0, 1, 0], [1, 1, 1, 0, 1, 0, 1, 0], [1, 1, 1, 1, 0, 0, 1, 1]],
      ratings = [], last_genome = Some [1, 1, 1, 1, 0, 0, 1, 1],
      last_candidate_id = Some ''g1_100012'', generation = 1\<rparr>"

section \<open>Properties of the float operations\<close>

lemma pow2_nonneg: "0 \<le> k \<Longrightarrow> pow2 k = 2 ^ nat k"
proof (induction k rule: pow2.induct)
  case (1 k)
  show ?case
  proof (cases "k = 0")
    case True
    then show ?thesis by (simp add: pow2.simps)
  next
    case False
    then have pos: "0 < k" using 1 by simp
    have h: "pow2 (k div 2) = 2 ^ nat (k div 2)"
      using 1 pos by (cases "even k") auto
    have ev: "even k \<Longrightarrow> (2::rat) ^ nat k = 2 ^ nat (k div 2) * 2 ^ nat (k div 2)"
    proof -
      assume "even k"
      then have "nat k = nat (k div 2) + nat (k div 2)" using pos by (auto elim!: evenE)
      then show ?thesis by (metis power_add)
    qed
    have od: "odd k \<Longrightarrow> (2::rat) ^ nat k = 2 * (2 ^ nat (k div 2) * 2 ^ nat (k div 2))"
    proof -
      assume "odd k"
      then have "nat k = Suc (nat (k div 2) + nat (k div 2))" using pos by (auto elim!: oddE)
      then show ?thesis by (metis power_add power_Suc)
    qed
    show ?thesis
      using pos h ev od by (subst pow2.simps) (simp add: square_def)
  qed
qed

lemma pow2_eq: "pow2 k = power_int 2 k"
proof (cases "0 \<le> k")
  case True
  then show ?thesis by (simp add: pow2_nonneg power_int_def)
next
  case False
  then have "pow2 k = 1 / pow2 (- k)" by (subst pow2.simps) simp
  then show ?thesis using False by (simp add: pow2_nonneg power_int_def field_simps)
qed

lemma pow2_pos: "0 < pow2 k"
  by (simp add: pow2_eq)

lemma pow2_mono: "j \<le> k \<Longrightarrow> pow2 j \<le> pow2 k"
  by (simp add: pow2_eq power_int_increasing)

lemma floor_log2_lower:
  assumes "0 < q"
  shows "pow2 (floor_log2 q) \<le> q"
proof -
  obtain a b where ab: "quotient_of q = (a, b)" by force
  have b: "0 < b" using ab quotient_of_denom_pos by blast
  have q: "q = of_int a / of_int b" using ab quotient_of_div by blast
  have a: "0 < a" using assms b q by (simp add: zero_less_divide_iff)
  let ?k = "bitlen a - bitlen b"
  have la: "(2::rat) ^ nat (bitlen a - 1) \<le> of_int a"
    using bitlen_bounds [OF a] by (metis of_int_le_iff of_int_numeral of_int_power)
  have lb: "of_int b < (2::rat) ^ nat (bitlen b)"
    using bitlen_bounds [OF b] by (metis of_int_less_iff of_int_numeral of_int_power)
  have ba: "1 \<le> bitlen a" using a by (simp add: bitlen_alt_def)
  have "pow2 (?k - 1) = pow2 (bitlen a - 1) / pow2 (bitlen b)"
    by (simp add: pow2_eq power_int_diff)
  also have "\<dots> = 2 ^ nat (bitlen a - 1) / 2 ^ nat (bitlen b)"
    using ba by (simp add: pow2_nonneg bitlen_nonneg)
  also have "\<dots> \<le> of_int a / of_int b"
    using la lb b a by (intro frac_le) auto
  finally have low: "pow2 (?k - 1) \<le> q" using q by simp
  show ?thesis
    using low by (simp add: floor_log2_def ab floor_log2_from_def)
qed

lemma floor_log2_upper:
  assumes "0 < q"
  shows "q < pow2 (floor_log2 q + 1)"
proof -
  obtain a b where ab: "quotient_of q = (a, b)" by force
  have b: "0 < b" using ab quotient_of_denom_pos by blast
  have q: "q = of_int a / of_int b" using ab quotient_of_div by blast
  have a: "0 < a" using assms b q by (simp add: zero_less_divide_iff)
  let ?k = "bitlen a - bitlen b"
  have ua: "of_int a < (2::rat) ^ nat (bitlen a)"
    using bitlen_bounds [OF a] by (metis of_int_less_iff of_int_numeral of_int_power)
  have lb: "(2::rat) ^ nat (bitlen b - 1) \<le> of_int b"
    using bitlen_bounds [OF b] by (metis of_int_le_iff of_int_numeral of_int_power)
  have bb: "1 \<le> bitlen b" using b by (simp add: bitlen_alt_def)
  have "(of_int a :: rat) / of_int b < 2 ^ nat (bitlen a) / 2 ^ nat (bitlen b - 1)"
    using ua lb b a by (intro frac_less) auto
  also have "\<dots> = pow2 (bitlen a) / pow2 (bitlen b - 1)"
    using bb by (simp add: pow2_nonneg bitlen_nonneg)
  also have "\<dots> = pow2 (bitlen a - (bitlen b - 1))"
    by (simp add: pow2_eq power_int_diff)
  also have "\<dots> = pow2 (?k + 1)"
    by (simp add: algebra_simps)
  finally have up: "q < pow2 (?k + 1)" using q by simp
  show ?thesis
  proof (cases "pow2 ?k \<le> q")
    case True
    then show ?thesis using up by (simp add: floor_log2_def ab floor_log2_from_def)
  next
    case False
    then show ?thesis by (simp add: floor_log2_def ab floor_log2_from_def)
  qed
qed

lemma round_half_even_lower: "1 \<le> x \<Longrightarrow> 1 \<le> round_half_even x"
proof -
  assume "1 \<le> x"
  then have "1 \<le> \<lfloor>x\<rfloor>" by linarith
  then show ?thesis by (simp add: round_half_even_def round_half_even_from_def)
qed

lemma py_float_nonzero:
  assumes "n \<noteq> 0" and "py_float n = Inr x"
  shows "\<exists>v. x = Finite v \<and> v \<noteq> 0"
proof -
  let ?a = "\<bar>of_int n :: rat\<bar>"
  let ?e = "max (floor_log2 ?a - 52) (- 1074)"
  have "1 \<le> \<bar>n\<bar>" using assms(1) by simp
  then have "(of_int 1 :: rat) \<le> of_int \<bar>n\<bar>" by (simp only: of_int_le_iff)
  then have a1: "1 \<le> ?a" by simp
  have "pow2 ?e \<le> ?a"
  proof (cases "floor_log2 ?a - 52 \<le> - 1074")
    case True
    then have "pow2 ?e = pow2 (- 1074)" by (simp add: max_def)
    also have "\<dots> \<le> pow2 0" by (rule pow2_mono) simp
    also have "\<dots> = 1" by (simp add: pow2.simps)
    finally show ?thesis using a1 by simp
  next
    case False
    then have "pow2 ?e = pow2 (floor_log2 ?a - 52)" by (simp add: max_def)
    also have "\<dots> \<le> pow2 (floor_log2 ?a)" by (rule pow2_mono) simp
    also have "\<dots> \<le> ?a" using a1 by (intro floor_log2_lower) simp
    finally show ?thesis .
  qed
  then have "1 \<le> ?a / pow2 ?e" using pow2_pos [of ?e] by (simp add: le_divide_eq)
  then have "1 \<le> round_half_even (?a / pow2 ?e)" by (rule round_half_even_lower)
  then have "0 < round_to_ulp ?a (pow2 ?e)"
    using pow2_pos [of ?e] by (simp add: round_to_ulp_def)
  then have v: "round_to_ulp ?a (pow2 ?e) \<noteq> 0" by simp
  have nz: "(of_int n :: rat) \<noteq> 0" using assms(1) by simp
  show ?thesis
    using assms(2) v nz
    by (auto simp: py_float_def round_double_def round_magnitude_def overflow_check_def
        split: pyfloat.splits if_splits)
qed

lemma note_length_of_cases:
  assumes "n \<noteq> 0"
  shows "note_length_of n = Inl OverflowError \<or> (\<exists>nl. note_length_of n = Inr nl)"
proof (cases "py_float n")
  case (Inl e)
  then have "e = OverflowError" by (auto simp: py_float_def split: pyfloat.splits)
  then show ?thesis using Inl by (simp add: note_length_of_def)
next
  case (Inr x)
  then obtain v where "x = Finite v" "v \<noteq> 0" using py_float_nonzero [OF assms] by blast
  then show ?thesis using Inr by (simp add: note_length_of_def)
qed

section \<open>Properties of the decoder\<close>

lemma collect_all_Inr: "collect (map Inr xs) = Inr xs"
  by (induction xs) auto

lemma collect_ok: "list_all (\<lambda>x. \<exists>y. x = Inr y) xs \<Longrightarrow> \<exists>ys. collect xs = Inr ys"
  by (induction xs) auto

lemma decode_aligned_step:
  "length (m_velocity m) = length (m_notes m) \<and> length (m_beat m) = length (m_notes m) \<Longrightarrow>
   length (m_velocity (decode_chunk p nl m c)) = length (m_notes (decode_chunk p nl m c)) \<and>
   length (m_beat (decode_chunk p nl m c)) = length (m_notes (decode_chunk p nl m c))"
  by (simp add: decode_chunk_def Let_def)

lemma decode_aligned:
  "length (m_velocity m) = length (m_notes m) \<and> length (m_beat m) = length (m_notes m) \<Longrightarrow>
   length (m_velocity (foldl (decode_chunk p nl) m cs)) = length (m_notes (foldl (decode_chunk p nl) m cs)) \<and>
   length (m_beat (foldl (decode_chunk p nl) m cs)) = length (m_notes (foldl (decode_chunk p nl) m cs))"
proof (induction cs arbitrary: m)
  case Nil
  then show ?case by simp
next
  case (Cons c cs)
  show ?case
    using Cons.IH [OF decode_aligned_step [OF Cons.prems]] by simp
qed

lemma decode_all_rests:
  "list_all (\<lambda>c. int_from_bits c \<ge> 8) cs \<Longrightarrow>
   foldl (decode_chunk True nl) m cs =
     m\<lparr>m_notes := m_notes m @ replicate (length cs) 0,
        m_velocity := m_velocity m @ replicate (length cs) 0,
        m_beat := m_beat m @ replicate (length cs) nl\<rparr>"
proof (induction cs arbitrary: m)
  case Nil
  then show ?case by simp
next
  case (Cons c cs)
  have step: "decode_chunk True nl m c =
      m\<lparr>m_notes := m_notes m @ [0], m_velocity := m_velocity m @ [0], m_beat := m_beat m @ [nl]\<rparr>"
    using Cons.prems by (simp add: decode_chunk_def BITS_PER_NOTE_def)
  have rest: "list_all (\<lambda>c. int_from_bits c \<ge> 8) cs"
    using Cons.prems by simp
  show ?case
    by (simp add: step Cons.IH [OF rest] replicate_append_same)
qed

lemma int_from_bits4: "int_from_bits [a, b, c, d] = a + 2 * b + 4 * c + 8 * d"
  by (simp add: int_from_bits_def enumerate_eq_zip upt_rec)

lemma chunk_full:
  assumes "4 * i + 4 \<le> length g"
  shows "take BITS_PER_NOTE (drop (i * BITS_PER_NOTE) g) =
           [g ! (4 * i), g ! (4 * i + 1), g ! (4 * i + 2), g ! (4 * i + 3)]"
proof (rule nth_equalityI)
  show "length (take BITS_PER_NOTE (drop (i * BITS_PER_NOTE) g)) =
          length [g ! (4 * i), g ! (4 * i + 1), g ! (4 * i + 2), g ! (4 * i + 3)]"
    using assms by (simp add: BITS_PER_NOTE_def)
next
  fix k assume "k < length (take BITS_PER_NOTE (drop (i * BITS_PER_NOTE) g))"
  then have "k < 4" by (simp add: BITS_PER_NOTE_def)
  then consider "k = 0" | "k = 1" | "k = 2" | "k = 3" by linarith
  then show "take BITS_PER_NOTE (drop (i * BITS_PER_NOTE) g) ! k =
          [g ! (4 * i), g ! (4 * i + 1), g ! (4 * i + 2), g ! (4 * i + 3)] ! k"
    using assms by cases (simp_all add: BITS_PER_NOTE_def mult.commute)
qed

lemma collect_replicate: "collect (replicate n (Inr x)) = Inr (replicate n x)"
  by (induction n) auto

lemma expand_rests:
  "expand_steps sp steps (replicate n 0) = Inr (replicate (nat steps) (replicate n 0))"
proof -
  have "map (\<lambda>step. collect (map (step_note sp (int step)) (replicate n 0))) [0 ..< nat steps]
        = replicate (nat steps) (Inr (replicate n 0))"
    by (simp add: step_note_def collect_replicate map_replicate_const)
  then show ?thesis
    by (simp add: expand_steps_def collect_replicate)
qed

text \<open>
  Claim C9, as the code has it. With pauses allowed, a genome of exactly
  \<open>bars * notesPerBar * 4\<close> bits whose every chunk has its high bit (the fourth bit of the
  chunk) set decodes to rests only, whenever \<open>4 / float(notesPerBar)\<close> is defined: one rest entry
  for each chunk, in every step, with velocity 0 and the double \<open>4 / float(notesPerBar)\<close> as its
  duration.
\<close>

theorem all_high_bits_decode_to_rests:
  assumes nl: "note_length_of npb = Inr nl"
    and len: "int (length g) = bars * npb * 4"
    and bits: "list_all (\<lambda>b. b = 0 \<or> b = 1) g"
    and high: "list_all (\<lambda>i. g ! (4 * i + 3) = 1) [0 ..< nat (bars * npb)]"
  shows "genome_to_melody g bars npb steps True sp =
           Inr \<lparr>m_notes = replicate (nat steps) (replicate (nat (bars * npb)) 0),
                m_velocity = replicate (nat (bars * npb)) 0,
                m_beat = replicate (nat (bars * npb)) nl\<rparr>"
proof -
  let ?n = "nat (bars * npb)"
  have nonneg: "0 \<le> bars * npb" using len by linarith
  have glen: "length g = 4 * ?n" using len nonneg by linarith
  have "list_all (\<lambda>c. int_from_bits c \<ge> 8) (chunks g bars npb)"
    unfolding chunks_def list_all_iff
  proof (clarsimp)
    fix i assume i: "i < ?n"
    have full: "4 * i + 4 \<le> length g" using i glen by simp
    have h: "g ! (4 * i + 3) = 1" using high i by (simp add: list_all_iff)
    have b: "\<And>k. k < length g \<Longrightarrow> 0 \<le> g ! k"
      using bits by (auto simp: list_all_length)
    have "0 \<le> g ! (4 * i)" "0 \<le> g ! (4 * i + 1)" "0 \<le> g ! (4 * i + 2)"
      using b full by simp_all
    then show "8 \<le> int_from_bits (take BITS_PER_NOTE (drop (i * BITS_PER_NOTE) g))"
      by (simp add: chunk_full [OF full] int_from_bits4 h)
  qed
  from decode_all_rests [OF this, of nl empty_melody]
  have dec: "foldl (decode_chunk True nl) empty_melody (chunks g bars npb) =
      \<lparr>m_notes = replicate ?n 0, m_velocity = replicate ?n 0, m_beat = replicate ?n nl\<rparr>"
    by (simp add: empty_melody_def chunks_def)
  show ?thesis
    by (simp add: genome_to_melody_def nl dec expand_rests)
qed

theorem all_high_bits_decode_to_rests_witness:
  "genome_to_melody [0, 1, 0, 1, 1, 1, 0, 1] 1 2 2 True c_major =
     Inr \<lparr>m_notes = [[0, 0], [0, 0]], m_velocity = [0, 0], m_beat = [Finite 2, Finite 2]\<rparr>"
proof -
  have h1: "note_length_of 2 = Inr (Finite 2)" by code_simp
  have h2: "int (length [0, 1, 0, 1, 1, 1, 0, 1 :: int]) = 1 * 2 * 4" by simp
  have h3: "list_all (\<lambda>b. b = 0 \<or> b = 1) [0, 1, 0, 1, 1, 1, 0, 1 :: int]" by simp
  have h4: "list_all (\<lambda>i. [0, 1, 0, 1, 1, 1, 0, 1 :: int] ! (4 * i + 3) = 1) [0 ..< nat (1 * 2)]"
    by code_simp
  show ?thesis
    using all_high_bits_decode_to_rests [OF h1 h2 h3 h4, of 2 c_major]
    by (simp add: numeral_eq_Suc)
qed

text \<open>
  Claim C9 as stated fails in its total duration. For 1 bar of 10 notes every duration is the
  double nearest to 0.4, which is not \<open>4 / 10\<close>, and the ten durations add up, as
  \<open>genome_to_stream\<close> adds them, to the double \<open>4 - 2^-51\<close>, where the claim has
  \<open>1 * 10 * (4 / 10) = 4\<close>.
\<close>

theorem rests_total_duration_counterexample:
  "genome_to_melody
     [0, 0, 0, 1, 0, 0, 0, 1, 0, 0, 0, 1, 0, 0, 0, 1, 0, 0, 0, 1,
      0, 0, 0, 1, 0, 0, 0, 1, 0, 0, 0, 1, 0, 0, 0, 1, 0, 0, 0, 1] 1 10 1 True c_major =
     Inr \<lparr>m_notes = [replicate 10 0], m_velocity = replicate 10 0,
          m_beat = replicate 10 (Finite (3602879701896397 / 9007199254740992))\<rparr>
   \<and> total_duration (replicate 10 (Finite (3602879701896397 / 9007199254740992))) =
       Finite (9007199254740991 / 2251799813685248)
   \<and> Finite (9007199254740991 / 2251799813685248) \<noteq> Finite (1 * 10 * (4 / 10))"
  by code_simp

lemma sum_enumerate_zeros:
  "sum_list (map (\<lambda>(index, bit). bit * 2 ^ index) (enumerate n (replicate k (0::int)))) = 0"
  by (induction k arbitrary: n) auto

lemma int_from_bits_pad: "int_from_bits (bits @ replicate k 0) = int_from_bits bits"
  by (simp add: int_from_bits_def enumerate_append_eq sum_enumerate_zeros)

lemma chunk_pad:
  "\<exists>j. take n (drop d (g @ replicate k (0::int))) = take n (drop d g) @ replicate j 0"
  by (rule exI [of _ "min (n - length (drop d g)) (k - (d - length g))"]) simp

lemma decode_chunk_cong:
  "int_from_bits a = int_from_bits b \<Longrightarrow> decode_chunk p nl m a = decode_chunk p nl m b"
  by (simp add: decode_chunk_def)

lemma foldl_decode_cong:
  "list_all2 (\<lambda>a b. int_from_bits a = int_from_bits b) cs ds \<Longrightarrow>
   foldl (decode_chunk p nl) m cs = foldl (decode_chunk p nl) m ds"
proof (induction cs ds arbitrary: m rule: list_all2_induct)
  case Nil
  show ?case by simp
next
  case (Cons a cs b ds)
  show ?case
    by (simp add: decode_chunk_cong [OF Cons.hyps(1)] Cons.IH)
qed

lemma chunks_pad:
  "list_all2 (\<lambda>a b. int_from_bits a = int_from_bits b)
     (chunks g bars npb) (chunks (g @ replicate k 0) bars npb)"
proof -
  have "\<And>i. int_from_bits (take BITS_PER_NOTE (drop (i * BITS_PER_NOTE) g)) =
             int_from_bits (take BITS_PER_NOTE (drop (i * BITS_PER_NOTE) (g @ replicate k 0)))"
  proof -
    fix i
    obtain j where "take BITS_PER_NOTE (drop (i * BITS_PER_NOTE) (g @ replicate k 0)) =
        take BITS_PER_NOTE (drop (i * BITS_PER_NOTE) g) @ replicate j 0"
      using chunk_pad by blast
    then show "int_from_bits (take BITS_PER_NOTE (drop (i * BITS_PER_NOTE) g)) =
             int_from_bits (take BITS_PER_NOTE (drop (i * BITS_PER_NOTE) (g @ replicate k 0)))"
      by (simp add: int_from_bits_pad)
  qed
  then show ?thesis
    by (simp add: chunks_def list_all2_map1 list_all2_map2 list_all2_same)
qed

lemma genome_to_melody_pad:
  "genome_to_melody (g @ replicate k 0) bars npb steps p sp = genome_to_melody g bars npb steps p sp"
proof -
  have e: "\<And>nl. foldl (decode_chunk p nl) empty_melody (chunks (g @ replicate k 0) bars npb) =
      foldl (decode_chunk p nl) empty_melody (chunks g bars npb)"
    using foldl_decode_cong [OF chunks_pad, of p _ empty_melody g bars npb k] by simp
  show ?thesis
    by (cases "note_length_of npb") (simp_all add: genome_to_melody_def e)
qed

lemma step_note_ok: "sp \<noteq> [] \<Longrightarrow> \<exists>y. step_note sp st v = Inr y"
  by (simp add: step_note_def)

lemma expand_steps_ok:
  assumes "sp \<noteq> []"
  shows "\<exists>ys. expand_steps sp steps ns = Inr ys"
proof -
  have inner: "\<And>st. \<exists>ys. collect (map (step_note sp st) ns) = Inr ys"
    by (rule collect_ok) (simp add: list_all_iff step_note_ok [OF assms])
  show ?thesis
    unfolding expand_steps_def
    by (rule collect_ok) (simp add: list_all_iff inner)
qed

text \<open>
  Claim C5, as the code has it. A genome shorter than \<open>bars * notesPerBar * 4\<close> bits is not
  refused: the slices past its end are cut short, a missing bit counts as 0, and the decoder
  does exactly what it does for the genome padded with 0 bits to the full length. Over a
  scale with at least one pitch that is to return a melody, unless \<open>notesPerBar\<close> is too large
  for \<open>float\<close>, which raises \<open>OverflowError\<close>.
\<close>

theorem short_genome_decodes_as_padded:
  assumes "int (length g) < bars * npb * 4" and "sp \<noteq> []"
  shows "genome_to_melody g bars npb steps p sp =
           genome_to_melody (g @ replicate (nat (bars * npb * 4) - length g) 0) bars npb steps p sp
         \<and> ((\<exists>mel. genome_to_melody g bars npb steps p sp = Inr mel)
            \<or> genome_to_melody g bars npb steps p sp = Inl OverflowError)"
proof -
  have npb: "npb \<noteq> 0" using assms(1) by auto
  have "(\<exists>mel. genome_to_melody g bars npb steps p sp = Inr mel)
      \<or> genome_to_melody g bars npb steps p sp = Inl OverflowError"
    using note_length_of_cases [OF npb]
  proof
    assume "note_length_of npb = Inl OverflowError"
    then show ?thesis by (simp add: genome_to_melody_def)
  next
    assume "\<exists>nl. note_length_of npb = Inr nl"
    then obtain nl where nl: "note_length_of npb = Inr nl" by blast
    obtain ys where "expand_steps sp steps
        (m_notes (foldl (decode_chunk p nl) empty_melody (chunks g bars npb))) = Inr ys"
      using expand_steps_ok [OF assms(2)] by blast
    then show ?thesis by (simp add: genome_to_melody_def nl Let_def)
  qed
  then show ?thesis by (simp add: genome_to_melody_pad)
qed

theorem short_genome_decodes_as_padded_witness:
  "genome_to_melody [0, 1, 0, 0, 1, 1] 1 2 2 True c_major =
     genome_to_melody [0, 1, 0, 0, 1, 1, 0, 0] 1 2 2 True c_major
   \<and> ((\<exists>mel. genome_to_melody [0, 1, 0, 0, 1, 1] 1 2 2 True c_major = Inr mel)
      \<or> genome_to_melody [0, 1, 0, 0, 1, 1] 1 2 2 True c_major = Inl OverflowError)"
proof -
  have h1: "int (length [0, 1, 0, 0, 1, 1 :: int]) < 1 * 2 * 4" by simp
  have h2: "c_major \<noteq> []" by (simp add: c_major_def)
  have pad: "[0, 1, 0, 0, 1, 1] @ replicate (nat (1 * 2 * 4) - length [0, 1, 0, 0, 1, 1 :: int]) 0
      = [0, 1, 0, 0, 1, 1, 0, 0 :: int]"
    by (simp add: numeral_2_eq_2)
  show ?thesis
    using short_genome_decodes_as_padded [OF h1 h2, of 2 True] unfolding pad .
qed

text \<open>
  Claim C5 as stated fails: a genome of 6 bits for 1 bar of 2 notes (8 bits) is decoded, the
  second chunk from the 2 bits there are.
\<close>

theorem short_genome_counterexample:
  "int (length [0, 1, 0, 0, 1, 1 :: int]) < 1 * 2 * 4
   \<and> genome_to_melody [0, 1, 0, 0, 1, 1] 1 2 2 True c_major =
       Inr \<lparr>m_notes = [[64, 65], [67, 69]], m_velocity = [127, 127], m_beat = [Finite 2, Finite 2]\<rparr>"
  by code_simp

text \<open>
  Claim C2 at the genome \<open>0000\<close>: the chunk decodes to the sounded entry of scale degree 0
  (velocity 127), and the step expansion writes the rest value 0 for it in both steps, where
  the claim has the pitches \<open>scalePitches[0] = 60\<close> and \<open>scalePitches[2] = 64\<close>.
\<close>

theorem tonic_note_is_emitted_as_rest:
  "foldl (decode_chunk True (Finite 4)) empty_melody (chunks [0, 0, 0, 0] 1 1) =
     \<lparr>m_notes = [0], m_velocity = [127], m_beat = [Finite 4]\<rparr>
   \<and> genome_to_melody [0, 0, 0, 0] 1 1 2 True c_major =
       Inr \<lparr>m_notes = [[0], [0]], m_velocity = [127], m_beat = [Finite 4]\<rparr>
   \<and> c_major ! nat ((0 + 0 * 2) mod int (length c_major)) = 60
   \<and> c_major ! nat ((0 + 1 * 2) mod int (length c_major)) = 64"
  by code_simp

text \<open>
  Claim C3 at the genome \<open>0001 0000\<close>: the first chunk is a rest (integer 8), the second the
  note of degree 0, and the decoder extends the rest: one entry of velocity 0 and duration 4,
  where the claim has a rest of duration 2 followed by a note of duration 2.
\<close>

theorem tonic_note_merges_into_rest:
  "map int_from_bits (chunks [0, 0, 0, 1, 0, 0, 0, 0] 1 2) = [8, 0]
   \<and> genome_to_melody [0, 0, 0, 1, 0, 0, 0, 0] 1 2 1 True c_major =
       Inr \<lparr>m_notes = [[0]], m_velocity = [0], m_beat = [Finite 4]\<rparr>"
  by code_simp

text \<open>
  Claim C4 at the genome \<open>0001 1000\<close> with pauses off: the first chunk is 8 mod 8 = 0, a
  sounded entry (velocity 127), and the first value of the step is the rest value 0.
\<close>

theorem no_pauses_still_yields_rest:
  "genome_to_melody [0, 0, 0, 1, 1, 0, 0, 0] 1 2 1 False c_major =
     Inr \<lparr>m_notes = [[0, 62]], m_velocity = [127, 127], m_beat = [Finite 2, Finite 2]\<rparr>"
  by code_simp

section \<open>Properties of the fitness lookup\<close>

lemma fitness_func_unrated: "g \<notin> fst ` set rs \<Longrightarrow> fitness_func rs g = 0"
  by (induction rs g rule: fitness_func.induct) auto

lemma fitness_func_rated: "g \<in> fst ` set rs \<Longrightarrow> (g, fitness_func rs g) \<in> set rs"
  by (induction rs g rule: fitness_func.induct) (auto simp: image_iff)

lemma fitness_func_first: "g \<notin> fst ` set before \<Longrightarrow> fitness_func (before @ (g, r) # later) g = r"
  by (induction before g rule: fitness_func.induct) auto

text \<open>
  Claim C10. The lookup scans the history in the order of appending and returns the rating of
  the first record whose genome equals the queried one: with no such record before the record
  \<open>(g, r)\<close> the fitness of \<open>g\<close> is \<open>r\<close>, whatever records follow it, and whatever is appended
  to the history later.
\<close>

theorem first_matching_rating_wins:
  assumes "ratings s = before @ (g, r) # later" and "g \<notin> fst ` set before"
  shows "fitness_lookup_from_ratings s g = r
       \<and> fitness_lookup_from_ratings (s\<lparr>ratings := ratings s @ extra\<rparr>) g = r"
proof -
  have "fitness_func (before @ (g, r) # later @ extra) g = r"
    using fitness_func_first [OF assms(2)] by simp
  then show ?thesis
    by (simp add: fitness_lookup_from_ratings_def assms(1) fitness_func_first [OF assms(2)])
qed


section \<open>Properties of the session\<close>

lemma one_slot: "\<exists>i g. xs[idx := child] = xs[i := g]"
  by blast

lemma no_slot: "\<exists>i (g :: 'a). xs = xs[i := g]"
  by (rule exI [of _ "length xs"]) (simp add: list_update_beyond)

lemma submit_rating_population:
  "\<exists>i g. population (fst (snd (submit_rating s cid rating r))) = (population s)[i := g]"
  by (simp add: submit_rating_def Let_def one_slot no_slot
      split: option.split prod.split sum.split)

lemma submit_rating_config:
  "population_size (fst (snd (submit_rating s cid rating r))) = population_size s"
  by (simp add: submit_rating_def Let_def split: option.split prod.split sum.split)

lemma generate_next_candidate_state:
  "fst (snd (generate_next_candidate E s out steps r)) = s\<lparr>generation := generation s + 1\<rparr>
   \<or> (\<exists>i g lid. i < length (population s) \<and>
        fst (snd (generate_next_candidate E s out steps r)) =
          s\<lparr>generation := generation s + 1, population := (population s)[i := g],
            last_genome := Some g, last_candidate_id := Some lid\<rparr>)"
proof -
  let ?s1 = "s\<lparr>generation := generation s + 1\<rparr>"
  obtain a r3 where b: "breed E ?s1 r = (a, r3)" by force
  show ?thesis
  proof (cases a)
    case (Inl e)
    then have "fst (snd (generate_next_candidate E s out steps r)) = ?s1"
      using b by (simp add: generate_next_candidate_def)
    then show ?thesis by simp
  next
    case (Inr child)
    obtain c r4 where rr: "randrange (length (population s)) r3 = (c, r4)" by force
    show ?thesis
    proof (cases c)
      case (Inl e)
      then have "fst (snd (generate_next_candidate E s out steps r)) = ?s1"
        using b Inr rr by (simp add: generate_next_candidate_def)
      then show ?thesis by simp
    next
      case idx: (Inr i)
      have i: "i < length (population s)"
        using rr idx by (auto simp: randrange_def split: if_splits prod.splits)
      obtain n r5 where ri: "randint 100000 999999 r4 = (n, r5)" by force
      have "fst (snd (generate_next_candidate E s out steps r)) =
          s\<lparr>generation := generation s + 1, population := (population s)[i := child],
            last_genome := Some child,
            last_candidate_id := Some (''g'' @ str_int (generation s + 1) @ ''_'' @ str_int n)\<rparr>"
        using b Inr rr idx ri
        by (simp add: generate_next_candidate_def Let_def split: option.split)
      then show ?thesis using i by blast
    qed
  qed
qed


lemma generate_next_candidate_population:
  "\<exists>i g. population (fst (snd (generate_next_candidate E s out steps r))) = (population s)[i := g]"
  using generate_next_candidate_state [of E s out steps r]
proof
  assume "fst (snd (generate_next_candidate E s out steps r)) = s\<lparr>generation := generation s + 1\<rparr>"
  then show ?thesis by (simp add: no_slot)
next
  assume "\<exists>i g lid. i < length (population s) \<and>
        fst (snd (generate_next_candidate E s out steps r)) =
          s\<lparr>generation := generation s + 1, population := (population s)[i := g],
            last_genome := Some g, last_candidate_id := Some lid\<rparr>"
  then obtain i g lid where "fst (snd (generate_next_candidate E s out steps r)) =
          s\<lparr>generation := generation s + 1, population := (population s)[i := g],
            last_genome := Some g, last_candidate_id := Some lid\<rparr>" by blast
  then show ?thesis by (simp add: one_slot)
qed

lemma generate_next_candidate_config:
  "population_size (fst (snd (generate_next_candidate E s out steps r))) = population_size s"
  using generate_next_candidate_state [of E s out steps r] by auto

lemma run_single:
  "run E [ProduceCandidate out steps] s r =
     (fst (snd (generate_next_candidate E s out steps r)), snd (snd (generate_next_candidate E s out steps r)))"
  "run E [RecordRating cid rating] s r =
     (fst (snd (submit_rating s cid rating r)), snd (snd (submit_rating s cid rating r)))"
  by (simp_all split: prod.split)

lemma call_population:
  "\<exists>i g. population (fst (run E [c] s r)) = (population s)[i := g]"
  by (cases c) (simp_all only: run_single fst_conv generate_next_candidate_population
      submit_rating_population)

lemma call_config: "population_size (fst (run E [c] s r)) = population_size s"
  by (cases c) (simp_all only: run_single fst_conv generate_next_candidate_config
      submit_rating_config)

lemma run_Cons: "run E (c # cs) s r = run E cs (fst (run E [c] s r)) (snd (run E [c] s r))"
  by (cases c) (simp_all split: prod.split)

lemma run_population:
  "length (population (fst (run E calls s r))) = length (population s)
   \<and> population_size (fst (run E calls s r)) = population_size s"
proof (induction calls arbitrary: s r)
  case Nil
  show ?case by simp
next
  case (Cons c calls)
  obtain i g where "population (fst (run E [c] s r)) = (population s)[i := g]"
    using call_population by blast
  then have "length (population (fst (run E [c] s r))) = length (population s)" by simp
  then show ?case
    using Cons.IH [of "fst (run E [c] s r)" "snd (run E [c] s r)"] call_config [of E c s r]
    by (simp add: run_Cons [of E c calls])
qed

lemma generate_population_length:
  "generate_population E len n r = (Inr pop, r1) \<Longrightarrow> length pop = n"
  by (induction n arbitrary: r pop r1) (auto split: prod.splits sum.splits)

lemma init_session_state_population:
  assumes "init_session_state E nb nn p k sc t ps nm mp r = (Inr s0, r0)"
  shows "length (population s0) = nat ps \<and> population_size s0 = ps"
  using assms
  by (auto simp: init_session_state_def Let_def split: prod.splits sum.splits
      dest: generate_population_length)

text \<open>
  Claim C6. A session that \<open>init_session_state\<close> has created holds \<open>populationSize\<close> genomes,
  and still does after any sequence of \<open>generate_next_candidate\<close> and \<open>submit_rating\<close> calls,
  whether they return or raise; each single call, on any state, changes the population in
  at most one slot, by an update in place.
\<close>

theorem population_size_invariant:
  assumes "init_session_state E nb nn p k sc t ps nm mp r = (Inr s0, r0)"
  shows "length (population (fst (run E calls s0 r0))) = nat ps
       \<and> population_size (fst (run E calls s0 r0)) = ps
       \<and> (\<exists>i g. population (fst (run E [c] s r1)) = (population s)[i := g])"
  using init_session_state_population [OF assms] run_population [of E calls s0 r0]
    call_population [of E c s r1]
  by simp

text \<open>The two concrete sessions are states of a run with the operators after the spec.\<close>

lemma fresh_session_created:
  "init_session_state spec_env 1 2 True ''C'' ''major'' 120 3 2 (1 / 2)
       [1, 0, 1, 1, 0, 0, 1, 0, 1, 1, 1, 0, 5, 6, 7, 8, 9, 10, 11, 3, 4, 5, 6, 7] =
     (Inr fresh_session, [])"
  by code_simp

lemma session_after_first_candidate_reached:
  "generate_next_candidate spec_env fresh_session ''out.mid'' 1 [3, 4, 5, 6, 7, 8, 9, 10, 11, 12] =
     (Inr ''g1_100012'', session_after_first_candidate, [])"
  by code_simp

theorem population_size_invariant_witness:
  "length (population (fst (run spec_env
      [ProduceCandidate ''a.mid'' 1, RecordRating ''g1_100012'' 5, ProduceCandidate ''b.mid'' 2]
      fresh_session []))) = nat 3
   \<and> population_size (fst (run spec_env
      [ProduceCandidate ''a.mid'' 1, RecordRating ''g1_100012'' 5, ProduceCandidate ''b.mid'' 2]
      fresh_session [])) = 3
   \<and> (\<exists>i g. population (fst (run spec_env [RecordRating ''g1_100012'' 5]
          session_after_first_candidate [1])) = (population session_after_first_candidate)[i := g])"
  by (rule population_size_invariant [OF fresh_session_created])

theorem first_matching_rating_wins_witness:
  "fitness_lookup_from_ratings
     (session_after_first_candidate\<lparr>ratings := [([0, 1], 2), ([1, 1], 5), ([1, 1], 1)]\<rparr>) [1, 1] = 5
   \<and> fitness_lookup_from_ratings
     (session_after_first_candidate\<lparr>ratings := [([0, 1], 2), ([1, 1], 5), ([1, 1], 1), ([1, 1], 0)]\<rparr>)
       [1, 1] = 5"
proof -
  have h1: "ratings (session_after_first_candidate\<lparr>ratings := [([0, 1], 2), ([1, 1], 5), ([1, 1], 1)]\<rparr>)
      = [([0, 1], 2)] @ ([1, 1], 5) # [([1, 1], 1)]"
    by simp
  have h2: "[1, 1] \<notin> fst ` set [([0, 1 :: int], 2 :: int)]" by simp
  show ?thesis
    using first_matching_rating_wins [OF h1 h2, of "[([1, 1], 0)]"] by simp
qed

lemma submit_rating_unset:
  "last_genome s = None \<Longrightarrow> submit_rating s cid rating r = (None, s, r)"
  by (simp add: submit_rating_def)

lemma submit_rating_low:
  assumes "last_genome s = Some g" and "max 0 (min 5 rating) < 4"
  shows "submit_rating s cid rating r =
           (None, s\<lparr>ratings := ratings s @ [(g, max 0 (min 5 rating))]\<rparr>, r)"
proof -
  have n: "\<not> 4 \<le> max 0 (min 5 rating)" using assms(2) by linarith
  show ?thesis
    unfolding submit_rating_def Let_def
    by (simp only: assms(1) n option.case if_False)
qed

lemma submit_rating_high:
  assumes "last_genome s = Some g" and "4 \<le> max 0 (min 5 rating)" and "population s \<noteq> []"
  shows "submit_rating s cid rating r =
     (None, s\<lparr>ratings := ratings s @ [(g, max 0 (min 5 rating))],
              population := (population s)[fst (draw r) mod length (population s) := g]\<rparr>,
      snd (draw r))"
proof -
  have rr: "randrange (length (population s)) r =
      (Inr (fst (draw r) mod length (population s)), snd (draw r))"
    using assms(3) by (simp add: randrange_def split: prod.split)
  have "submit_rating s cid rating r =
      (case randrange (length (population (s\<lparr>ratings := ratings s @ [(g, max 0 (min 5 rating))]\<rparr>))) r of
         (Inl e, r1) \<Rightarrow> (Some e, s\<lparr>ratings := ratings s @ [(g, max 0 (min 5 rating))]\<rparr>, r1)
       | (Inr idx, r1) \<Rightarrow>
           (None, s\<lparr>ratings := ratings s @ [(g, max 0 (min 5 rating))]\<rparr>
              \<lparr>population := (population (s\<lparr>ratings := ratings s @ [(g, max 0 (min 5 rating))]\<rparr>))[idx := g]\<rparr>, r1))"
    unfolding submit_rating_def Let_def
    by (simp only: assms(1) assms(2) option.case if_True)
  then show ?thesis by (simp add: rr)
qed

lemma submit_rating_ratings:
  "last_genome s = Some g \<Longrightarrow>
   ratings (fst (snd (submit_rating s cid rating r))) = ratings s @ [(g, max 0 (min 5 rating))]"
  by (simp add: submit_rating_def Let_def split: prod.split sum.split)

text \<open>
  Claim C1, as the code has it. \<open>submit_rating\<close> never reads its \<open>candidate_id\<close>: the call does
  the same for every candidate id. It is a no-op when \<open>last_genome\<close> is unset, and when
  \<open>last_genome\<close> is set it appends the clamped rating for \<open>last_genome\<close> to the history, whatever
  the candidate id is.
\<close>

theorem submit_rating_ignores_candidate_id:
  "submit_rating s cid rating r = submit_rating s cid' rating r
   \<and> (last_genome s = None \<longrightarrow> submit_rating s cid rating r = (None, s, r))
   \<and> (\<forall>g. last_genome s = Some g \<longrightarrow>
        ratings (fst (snd (submit_rating s cid rating r))) = ratings s @ [(g, max 0 (min 5 rating))])"
proof -
  have "submit_rating s cid rating r = submit_rating s cid' rating r"
    by (simp add: submit_rating_def)
  then show ?thesis
    by (simp add: submit_rating_unset submit_rating_ratings)
qed

theorem submit_rating_ignores_candidate_id_witness:
  "submit_rating session_after_first_candidate ''g1_100012'' 3 [] =
     submit_rating session_after_first_candidate ''g0_555555'' 3 []
   \<and> submit_rating fresh_session ''g0_555555'' 3 [] = (None, fresh_session, [])
   \<and> ratings (fst (snd (submit_rating session_after_first_candidate ''g0_555555'' 3 []))) =
       ratings session_after_first_candidate @ [([1, 1, 1, 1, 0, 0, 1, 1], max 0 (min 5 3))]"
proof -
  have h1: "last_genome fresh_session = None" by (simp add: fresh_session_def)
  have h2: "last_genome session_after_first_candidate = Some [1, 1, 1, 1, 0, 0, 1, 1]"
    by (simp add: session_after_first_candidate_def)
  show ?thesis
    using submit_rating_ignores_candidate_id
            [of session_after_first_candidate "''g1_100012''" 3 "[]" "''g0_555555''"]
      submit_rating_ignores_candidate_id [of fresh_session "''g0_555555''" 3 "[]"]
      submit_rating_ignores_candidate_id [of session_after_first_candidate "''g0_555555''" 3 "[]"]
      h1 h2
    by blast
qed

text \<open>
  Claim C1 as stated fails: the session has produced the candidate \<open>g1_100012\<close>, and a rating
  for the unknown id \<open>g0_555555\<close> is appended to the history and, being 5, written into slot 0
  of the population.
\<close>

theorem stale_candidate_id_counterexample:
  "last_candidate_id session_after_first_candidate = Some ''g1_100012''
   \<and> ''g0_555555'' \<noteq> ''g1_100012''
   \<and> ratings session_after_first_candidate = []
   \<and> population session_after_first_candidate =
       [[1, 0, 1, 1, 0, 0, 1, 0], [1, 1, 1, 0, 1, 0, 1, 0], [1, 1, 1, 1, 0, 0, 1, 1]]
   \<and> submit_rating session_after_first_candidate ''g0_555555'' 5 [0] =
       (None,
        session_after_first_candidate
          \<lparr>ratings := [([1, 1, 1, 1, 0, 0, 1, 1], 5)],
           population := [[1, 1, 1, 1, 0, 0, 1, 1], [1, 1, 1, 0, 1, 0, 1, 0], [1, 1, 1, 1, 0, 0, 1, 1]]\<rparr>,
        [])"
  by code_simp

text \<open>
  In every state of a run of a created session, \<open>last_genome\<close> is set only when the population
  is not empty: \<open>generate_next_candidate\<close> sets it after \<open>random.randrange\<close> has returned a slot.
\<close>

lemma submit_rating_last_genome:
  "last_genome (fst (snd (submit_rating s cid rating r))) = last_genome s"
  by (simp add: submit_rating_def Let_def split: option.split prod.split sum.split)

lemma call_keeps_nonempty:
  assumes "last_genome s = None \<or> population s \<noteq> []"
  shows "last_genome (fst (run E [c] s r)) = None \<or> population (fst (run E [c] s r)) \<noteq> []"
proof (cases c)
  case (ProduceCandidate out steps)
  have e: "fst (run E [c] s r) = fst (snd (generate_next_candidate E s out steps r))"
    by (simp only: ProduceCandidate run_single fst_conv)
  show ?thesis
    unfolding e using assms generate_next_candidate_state [of E s out steps r] by auto
next
  case (RecordRating cid rating)
  have e: "fst (run E [c] s r) = fst (snd (submit_rating s cid rating r))"
    by (simp only: RecordRating run_single fst_conv)
  obtain i g where "population (fst (snd (submit_rating s cid rating r))) = (population s)[i := g]"
    using submit_rating_population by blast
  then show ?thesis
    unfolding e using assms submit_rating_last_genome [of s cid rating r] by auto
qed

lemma run_keeps_nonempty:
  "last_genome s = None \<or> population s \<noteq> [] \<Longrightarrow>
   last_genome (fst (run E calls s r)) = None \<or> population (fst (run E calls s r)) \<noteq> []"
proof (induction calls arbitrary: s r)
  case Nil
  then show ?case by simp
next
  case (Cons c calls)
  show ?case
    using Cons.IH [OF call_keeps_nonempty [OF Cons.prems, of E c r]]
    by (simp add: run_Cons [of E c calls])
qed

lemma created_session_nonempty:
  assumes "init_session_state E nb nn p k sc t ps nm mp r = (Inr s0, r0)"
    and "last_genome (fst (run E calls s0 r0)) = Some g"
  shows "population (fst (run E calls s0 r0)) \<noteq> []"
proof -
  have "last_genome s0 = None"
    using assms(1)
    by (auto simp: init_session_state_def Let_def split: prod.splits sum.splits)
  then show ?thesis
    using run_keeps_nonempty [of s0 E calls r0] assms(2) by auto
qed

text \<open>
  Claim C7. In a session with \<open>last_genome\<close> set (and so with a population that is not empty,
  lemma \<open>created_session_nonempty\<close>), \<open>submit_rating\<close> clamps any integer rating into
  0 to 5 (a rating in that range is kept), appends \<open>last_genome\<close> with the clamped rating to
  the history, and exactly when the clamped rating is at least 4 overwrites with \<open>last_genome\<close>
  the slot that \<open>random.randrange(len(population))\<close> draws, leaving the population as it is when
  the clamped rating is below 4. Every slot is drawn by some random source.
\<close>

theorem submit_rating_clamps_records_and_keeps:
  assumes "last_genome s = Some g" and "population s \<noteq> []"
  shows "0 \<le> max 0 (min 5 rating) \<and> max 0 (min 5 rating) \<le> 5
       \<and> (0 \<le> rating \<and> rating \<le> 5 \<longrightarrow> max 0 (min 5 rating) = rating)
       \<and> ratings (fst (snd (submit_rating s cid rating r))) = ratings s @ [(g, max 0 (min 5 rating))]
       \<and> (4 \<le> max 0 (min 5 rating) \<longrightarrow>
            fst (draw r) mod length (population s) < length (population s)
            \<and> submit_rating s cid rating r =
                (None,
                 s\<lparr>ratings := ratings s @ [(g, max 0 (min 5 rating))],
                   population := (population s)[fst (draw r) mod length (population s) := g]\<rparr>,
                 snd (draw r)))
       \<and> (max 0 (min 5 rating) < 4 \<longrightarrow>
            submit_rating s cid rating r =
              (None, s\<lparr>ratings := ratings s @ [(g, max 0 (min 5 rating))]\<rparr>, r))
       \<and> (\<forall>i. i < length (population s) \<and> 4 \<le> max 0 (min 5 rating) \<longrightarrow>
            population (fst (snd (submit_rating s cid rating (i # r)))) = (population s)[i := g])"
proof -
  have pos: "0 < length (population s)" using assms(2) by simp
  have a: "0 \<le> max 0 (min 5 rating) \<and> max 0 (min 5 rating) \<le> 5
       \<and> (0 \<le> rating \<and> rating \<le> 5 \<longrightarrow> max 0 (min 5 rating) = rating)"
    by auto
  have b: "fst (draw r) mod length (population s) < length (population s)"
    using pos by simp
  have c: "\<And>i. i < length (population s) \<Longrightarrow> 4 \<le> max 0 (min 5 rating) \<Longrightarrow>
      population (fst (snd (submit_rating s cid rating (i # r)))) = (population s)[i := g]"
    by (simp add: submit_rating_high [OF assms(1) _ assms(2)])
  show ?thesis
    using a b c submit_rating_ratings [OF assms(1)] submit_rating_low [OF assms(1)]
      submit_rating_high [OF assms(1) _ assms(2)]
    by blast
qed

theorem submit_rating_clamps_records_and_keeps_witness:
  "submit_rating session_after_first_candidate ''g1_100012'' 9 [7] =
     (None,
      session_after_first_candidate
        \<lparr>ratings := [([1, 1, 1, 1, 0, 0, 1, 1], 5)],
         population := [[1, 0, 1, 1, 0, 0, 1, 0], [1, 1, 1, 1, 0, 0, 1, 1], [1, 1, 1, 1, 0, 0, 1, 1]]\<rparr>,
      [])
   \<and> submit_rating session_after_first_candidate ''g1_100012'' 2 [7] =
     (None, session_after_first_candidate\<lparr>ratings := [([1, 1, 1, 1, 0, 0, 1, 1], 2)]\<rparr>, [7])"
proof -
  have h1: "last_genome session_after_first_candidate = Some [1, 1, 1, 1, 0, 0, 1, 1]"
    by (simp add: session_after_first_candidate_def)
  have h2: "population session_after_first_candidate \<noteq> []"
    by (simp add: session_after_first_candidate_def)
  show ?thesis
    using submit_rating_clamps_records_and_keeps [OF h1 h2, of 9 "''g1_100012''" "[7]"]
      submit_rating_clamps_records_and_keeps [OF h1 h2, of 2 "''g1_100012''" "[7]"]
    by (simp add: session_after_first_candidate_def)
qed

text \<open>
  The operators after the spec always return on a population that is not empty and whose
  genomes all have one length of at least 2, whatever the fitness function is.
\<close>

lemma spec_roulette_member: "spec_roulette fit g gs t \<in> set (g # gs)"
  by (induction gs arbitrary: g t) auto

lemma spec_selection_pair_returns:
  assumes "pop \<noteq> []"
  shows "\<exists>p1 p2 r1. spec_selection_pair pop fit r = (Inr (p1, p2), r1)
           \<and> p1 \<in> set pop \<and> p2 \<in> set pop"
proof -
  obtain g gs where pop: "pop = g # gs" using assms by (cases pop) auto
  obtain x r1 where d1: "draw r = (x, r1)" by force
  obtain y r2 where d2: "draw r1 = (y, r2)" by force
  have "spec_selection_pair pop fit r =
      (Inr (spec_roulette fit g gs (int x mod sum_list (map (\<lambda>g. fit g + 1) pop)),
            spec_roulette fit g gs (int y mod sum_list (map (\<lambda>g. fit g + 1) pop))), r2)"
    by (simp add: spec_selection_pair_def pop d1 d2 Let_def)
  then show ?thesis
    using spec_roulette_member [of fit g gs] pop by auto
qed

lemma spec_single_point_crossover_returns:
  assumes "length a = L" and "length b = L" and "2 \<le> L"
  shows "\<exists>c1 c2 r1. spec_single_point_crossover a b r = (Inr (c1, c2), r1)
           \<and> length c1 = L \<and> length c2 = L"
proof -
  obtain x r1 where d: "draw r = (x, r1)" by force
  let ?p = "1 + x mod (L - 1)"
  have "x mod (L - 1) < L - 1" using assms(3) by simp
  then have p: "?p \<le> L" by linarith
  have "spec_single_point_crossover a b r =
      (Inr (take ?p a @ drop ?p b, take ?p b @ drop ?p a), r1)"
    using assms by (simp add: spec_single_point_crossover_def d)
  moreover have "length (take ?p a @ drop ?p b) = L" "length (take ?p b @ drop ?p a) = L"
    using assms(1,2) p by simp_all
  ultimately show ?thesis by blast
qed

lemma spec_mutation_trials_length:
  "length (fst (spec_mutation_trials n probability g r)) = length g"
  by (induction n arbitrary: g r) (simp_all add: Let_def split: prod.split)

lemma spec_mutation_returns:
  assumes "g \<noteq> []"
  shows "\<exists>g1 r1. spec_mutation g num probability r = (Inr g1, r1) \<and> length g1 = length g"
proof -
  obtain g1 r1 where t: "spec_mutation_trials (nat num) probability g r = (g1, r1)" by force
  have "length g1 = length g"
    using spec_mutation_trials_length [of "nat num" probability g r] by (simp add: t)
  then show ?thesis using assms by (simp add: spec_mutation_def t)
qed

lemma spec_breed_returns:
  assumes pop: "population s \<noteq> []"
    and len: "list_all (\<lambda>g. length g = L) (population s)"
    and L: "2 \<le> L"
    and sel: "selection_pair E = spec_selection_pair"
    and cross: "single_point_crossover E = spec_single_point_crossover"
    and mut: "mutation E = spec_mutation"
  shows "\<exists>child r3. breed E s r = (Inr child, r3) \<and> length child = L"
proof -
  obtain p1 p2 r1 where
    s1: "spec_selection_pair (population s) (fitness_lookup_from_ratings s) r = (Inr (p1, p2), r1)"
    and m1: "p1 \<in> set (population s)" and m2: "p2 \<in> set (population s)"
    using spec_selection_pair_returns [OF pop] by blast
  have l1: "length p1 = L" and l2: "length p2 = L"
    using len m1 m2 by (simp_all add: list_all_iff)
  obtain c1 c2 r2 where
    c: "spec_single_point_crossover p1 p2 r1 = (Inr (c1, c2), r2)"
    and lc1: "length c1 = L" and lc2: "length c2 = L"
    using spec_single_point_crossover_returns [OF l1 l2 L] by blast
  obtain b r2' where h: "random_below_half r2 = (b, r2')" by force
  let ?child0 = "if b then c1 else c2"
  have l0: "length ?child0 = L" using lc1 lc2 by simp
  then have "?child0 \<noteq> []" using L by auto
  then obtain child r3 where
    m: "spec_mutation ?child0 (num_mutations s) (mutation_prob s) r2' = (Inr child, r3)"
    and lch: "length child = length ?child0"
    using spec_mutation_returns by blast
  have pp: "pick_parents E (population s) (fitness_lookup_from_ratings s) r = (Inr (p1, p2), r1)"
    by (simp add: pick_parents_def sel s1)
  have mc: "make_child E (p1, p2) r1 = (Inr ?child0, r2')"
    by (simp add: make_child_def cross c h)
  have "breed E s r = (Inr child, r3)"
    by (simp add: breed_def pp mc mut m)
  then show ?thesis using lch l0 by simp
qed

lemma generate_next_candidate_spec_returns:
  assumes pop: "population s \<noteq> []"
    and len: "list_all (\<lambda>g. length g = L) (population s)"
    and L: "2 \<le> L"
    and sel: "selection_pair E = spec_selection_pair"
    and cross: "single_point_crossover E = spec_single_point_crossover"
    and mut: "mutation E = spec_mutation"
  shows "\<exists>child cid s1 r5.
           generate_next_candidate E s out steps r =
             ((case save_genome_to_midi E out child (num_bars s) (num_notes s) steps (pauses s)
                      (key s) (scale s) (bpm s) of
                 None \<Rightarrow> Inr cid | Some e \<Rightarrow> Inl e), s1, r5)
           \<and> last_genome s1 = Some child \<and> length child = L"
proof -
  let ?s1 = "s\<lparr>generation := generation s + 1\<rparr>"
  have pop1: "population ?s1 \<noteq> []" using pop by simp
  have len1: "list_all (\<lambda>g. length g = L) (population ?s1)" using len by simp
  obtain child r3 where br: "breed E ?s1 r = (Inr child, r3)" and lch: "length child = L"
    using spec_breed_returns [OF pop1 len1 L sel cross mut] by blast
  have rr: "randrange (length (population s)) r3 =
      (Inr (fst (draw r3) mod length (population s)), snd (draw r3))"
    using pop by (simp add: randrange_def split: prod.split)
  obtain n r5 where ri: "randint 100000 999999 (snd (draw r3)) = (n, r5)" by force
  let ?cid = "''g'' @ str_int (generation s + 1) @ ''_'' @ str_int n"
  let ?s4 = "s\<lparr>generation := generation s + 1,
         population := (population s)[fst (draw r3) mod length (population s) := child],
         last_genome := Some child, last_candidate_id := Some ?cid\<rparr>"
  have "generate_next_candidate E s out steps r =
      ((case save_genome_to_midi E out child (num_bars s) (num_notes s) steps (pauses s)
               (key s) (scale s) (bpm s) of
          None \<Rightarrow> Inr ?cid | Some e \<Rightarrow> Inl e), ?s4, r5)"
    by (simp add: generate_next_candidate_def Let_def br rr ri split: option.split)
  moreover have "last_genome ?s4 = Some child" by simp
  ultimately show ?thesis using lch by blast
qed

text \<open>
  Claim C8. For a genome that some record of the history holds, the lookup returns the rating
  stored in such a record; for any other genome it returns 0; over the empty history it is
  the function that is 0 everywhere. With the empty history and the operators after the spec
  (whose selection takes a genome of fitness 0 as well), \<open>generate_next_candidate\<close> selects,
  crosses, mutates, writes the child into the population and records it as \<open>last_genome\<close>,
  for every session whose population is not empty and has genomes of one length of at least
  2: it returns the candidate id, or else the exception that writing the MIDI file raised,
  and nothing else.
\<close>

theorem fitness_lookup_over_history:
  "(g \<in> fst ` set (ratings s) \<longrightarrow> (g, fitness_lookup_from_ratings s g) \<in> set (ratings s))
   \<and> (g \<notin> fst ` set (ratings s) \<longrightarrow> fitness_lookup_from_ratings s g = 0)
   \<and> (ratings s = [] \<longrightarrow> fitness_lookup_from_ratings s = (\<lambda>g. 0))
   \<and> (ratings s = [] \<and> population s \<noteq> [] \<and> list_all (\<lambda>g. length g = L) (population s)
        \<and> 2 \<le> L
      \<longrightarrow> (\<exists>child cid s1 r5.
             generate_next_candidate (spec_env\<lparr>get_pitches := gp, write_midi := wm\<rparr>) s out steps r =
               ((case save_genome_to_midi (spec_env\<lparr>get_pitches := gp, write_midi := wm\<rparr>) out
                        child (num_bars s) (num_notes s) steps (pauses s) (key s) (scale s) (bpm s) of
                   None \<Rightarrow> Inr cid | Some e \<Rightarrow> Inl e), s1, r5)
             \<and> last_genome s1 = Some child \<and> length child = L))"
proof -
  let ?E = "spec_env\<lparr>get_pitches := gp, write_midi := wm\<rparr>"
  have e: "selection_pair ?E = spec_selection_pair"
    "single_point_crossover ?E = spec_single_point_crossover" "mutation ?E = spec_mutation"
    by (simp_all add: spec_env_def)
  have "ratings s = [] \<longrightarrow> fitness_lookup_from_ratings s = (\<lambda>g. 0)"
    by (simp add: fitness_lookup_from_ratings_def fun_eq_iff)
  then show ?thesis
    using fitness_func_rated [of g "ratings s"] fitness_func_unrated [of g "ratings s"]
      generate_next_candidate_spec_returns [of s L ?E out steps r, OF _ _ _ e]
    unfolding fitness_lookup_from_ratings_def
    by blast
qed

theorem fitness_lookup_over_history_witness:
  "([1, 1], fitness_lookup_from_ratings (fresh_session\<lparr>ratings := [([0, 1], 2), ([1, 1], 5)]\<rparr>) [1, 1])
      \<in> set [([0, 1], 2), ([1, 1], 5)]
   \<and> fitness_lookup_from_ratings (fresh_session\<lparr>ratings := [([0, 1], 2), ([1, 1], 5)]\<rparr>) [1, 0] = 0
   \<and> fitness_lookup_from_ratings fresh_session = (\<lambda>g. 0)
   \<and> (\<exists>child cid s1 r5.
        generate_next_candidate
            (spec_env\<lparr>get_pitches := (\<lambda>k s. Inr c_major), write_midi := (\<lambda>f m t. None)\<rparr>)
            fresh_session ''out.mid'' 1 [3, 4, 5, 6, 7, 8, 9, 10, 11, 12] =
          ((case save_genome_to_midi
                   (spec_env\<lparr>get_pitches := (\<lambda>k s. Inr c_major), write_midi := (\<lambda>f m t. None)\<rparr>)
                   ''out.mid'' child (num_bars fresh_session) (num_notes fresh_session) 1
                   (pauses fresh_session) (key fresh_session) (scale fresh_session)
                   (bpm fresh_session) of
              None \<Rightarrow> Inr cid | Some e \<Rightarrow> Inl e), s1, r5)
        \<and> last_genome s1 = Some child \<and> length child = 8)"
proof -
  let ?rated = "fresh_session\<lparr>ratings := [([0, 1], 2), ([1, 1], 5)]\<rparr>"
  have m1: "[1, 1] \<in> fst ` set (ratings ?rated)" by simp
  have m2: "[1, 0] \<notin> fst ` set (ratings ?rated)" by simp
  have e: "ratings fresh_session = []" by (simp add: fresh_session_def)
  have pop: "population fresh_session \<noteq> []" by (simp add: fresh_session_def)
  have len: "list_all (\<lambda>g. length g = 8) (population fresh_session)"
    by (simp add: fresh_session_def)
  have L: "(2::nat) \<le> 8" by simp
  show ?thesis
    using fitness_lookup_over_history [of "[1, 1]" ?rated]
      fitness_lookup_over_history [of "[1, 0]" ?rated]
      fitness_lookup_over_history [where g = "[]" and s = fresh_session and L = 8
        and gp = "\<lambda>k s. Inr c_major" and wm = "\<lambda>f m t. None" and out = "''out.mid''"
        and steps = 1 and r = "[3, 4, 5, 6, 7, 8, 9, 10, 11, 12]"]
      m1 m2 e pop len L
    by simp
qed

text \<open>A session that \<open>init_session_state\<close> creates with these operators has such a population.\<close>

lemma spec_generate_bits_length: "length (fst (spec_generate_bits n r)) = n"
proof (induction n arbitrary: r)
  case 0
  show ?case by simp
next
  case (Suc n)
  obtain x r1 where d: "draw r = (x, r1)" by force
  obtain bits r2 where sg: "spec_generate_bits n r1 = (bits, r2)" by force
  have "length bits = n" using Suc.IH [of r1] by (simp add: sg)
  then show ?case by (simp add: d sg)
qed

lemma spec_generate_population_lengths:
  "generate_population E len n r = (Inr pop, r1) \<Longrightarrow> generate_genome E = spec_generate_genome
     \<Longrightarrow> list_all (\<lambda>g. length g = nat len) pop"
proof (induction n arbitrary: r pop r1)
  case 0
  then show ?case by simp
next
  case (Suc n)
  obtain g ra where sg: "spec_generate_bits (nat len) r = (g, ra)" by force
  have g: "spec_generate_genome len r = (Inr g, ra)"
    by (simp add: spec_generate_genome_def sg)
  have lg: "length g = nat len"
    using spec_generate_bits_length [of "nat len" r] by (simp add: sg)
  obtain gs where gs: "generate_population E len n ra = (Inr gs, r1)" and pop: "pop = g # gs"
    using Suc.prems g by (auto split: prod.splits sum.splits)
  show ?case
    using Suc.IH [OF gs Suc.prems(2)] lg pop by simp
qed

lemma created_spec_session_well_formed:
  assumes "init_session_state E nb nn p k sc t ps nm mp r = (Inr s0, r0)"
    and "generate_genome E = spec_generate_genome" and "1 \<le> ps" and "1 \<le> nb * nn"
  shows "population s0 \<noteq> [] \<and> list_all (\<lambda>g. length g = nat (nb * nn * 4)) (population s0)
       \<and> 2 \<le> nat (nb * nn * 4)"
proof -
  obtain pop where gp: "generate_population E (nb * nn * int BITS_PER_NOTE) (nat ps) r = (Inr pop, r0)"
    and pop: "population s0 = pop"
    using assms(1)
    by (auto simp: init_session_state_def Let_def split: prod.splits sum.splits)
  have "length pop = nat ps" using generate_population_length [OF gp] .
  then have "pop \<noteq> []" using assms(3) by auto
  moreover have "list_all (\<lambda>g. length g = nat (nb * nn * 4)) pop"
    using spec_generate_population_lengths [OF gp assms(2)] by (simp add: BITS_PER_NOTE_def)
  ultimately show ?thesis using pop assms(4) by simp
qed

end
